theory Spec2Isabelle
  imports Main
begin

section \<open>Exceptions, results and trace events\<close>

text \<open>
  The simulator of \<^verbatim>\<open>virtual_memory.py\<close> is four Python classes that mutate their
  fields in place and raise on a violated \<^verbatim>\<open>assert\<close>, a bad index, a missing key, a
  value that is not in a deque, or a division by zero. An exception leaves every mutation
  made before it in place, so the result of every operation carries the state it ended
  in: \<open>Ok v s\<close> when it returned \<open>v\<close>, \<open>Raise e s\<close> when it raised \<open>e\<close>.
\<close>

datatype error = AssertionError | IndexError | KeyError | ValueError | ZeroDivisionError

datatype ('a, 's) res = Ok 'a 's | Raise error 's

fun res_state :: "('a, 's) res \<Rightarrow> 's" where
  "res_state (Ok v s) = s"
| "res_state (Raise e s) = s"

fun is_ok :: "('a, 's) res \<Rightarrow> bool" where
  "is_ok (Ok v s) = True"
| "is_ok (Raise e s) = False"

text \<open>
  Every object owns a \<^verbatim>\<open>printer\<close>; the messages it is called with are the trace. The
  messages are modelled by one constructor each, with the number the message formats.
\<close>

datatype event =
    PhysRead int
  | PhysWrite int
  | CacheSetFull
  | CacheDirtyWriteBack int
  | CacheCleanNoWriteBack int
  | CacheBlockLoaded
  | CacheHit
  | CacheMiss
  | VmFull
  | VmLoaded int
  | VmInvalidateCache
  | VmWriteBack int
  | VmResident
  | VmFault
  | TlbFull
  | TlbVmSwapped
  | TlbLoaded int
  | TlbDirtyWriteBack
  | TlbInvalidated int
  | TlbHit
  | TlbMiss

section \<open>Python lists and ranges\<close>

text \<open>\<^verbatim>\<open>xs[i]\<close>: a negative index counts from the end, anything else out of range raises.\<close>

definition py_index :: "nat \<Rightarrow> int \<Rightarrow> nat option" where
  "py_index n i =
     (if 0 \<le> i \<and> i < int n then Some (nat i)
      else if i < 0 \<and> - int n \<le> i then Some (nat (int n + i))
      else None)"

text \<open>\<^verbatim>\<open>range(start, stop, step)\<close> for a step that is not zero.\<close>

definition py_range :: "int \<Rightarrow> int \<Rightarrow> int \<Rightarrow> int list" where
  "py_range start stop step =
     (if 0 < step then
        map (\<lambda>k. start + int k * step) [0..<nat ((stop - start + step - 1) div step)]
      else if step < 0 then
        map (\<lambda>k. start + int k * step) [0..<nat ((start - stop - step - 1) div (- step))]
      else [])"

text \<open>\<^verbatim>\<open>next((i for i, x in enumerate(xs) if p(x)), None)\<close>.\<close>

fun first_index :: "('a \<Rightarrow> bool) \<Rightarrow> 'a list \<Rightarrow> nat option" where
  "first_index P [] = None"
| "first_index P (x # xs) =
     (if P x then Some 0 else map_option Suc (first_index P xs))"

section \<open>PhysicalMemory\<close>

record physical_memory =
  pm_size :: int
  pm_block_size :: int
  pm_printer :: "event list"

definition physical_init :: "int \<Rightarrow> int \<Rightarrow> error + physical_memory" where
  "physical_init sz bs =
     (if bs = 0 then Inl ZeroDivisionError
      else if sz mod bs \<noteq> 0 then Inl AssertionError
      else Inr \<lparr>pm_size = sz, pm_block_size = bs, pm_printer = []\<rparr>)"

definition physical_read :: "physical_memory \<Rightarrow> int \<Rightarrow> (unit, physical_memory) res" where
  "physical_read pm addr =
     (if \<not> (addr \<ge> 0 \<and> addr < pm_size pm) then Raise AssertionError pm
      else if pm_block_size pm = 0 then Raise ZeroDivisionError pm
      else Ok () (pm\<lparr>pm_printer := pm_printer pm @ [PhysRead (addr div pm_block_size pm)]\<rparr>))"

definition physical_write :: "physical_memory \<Rightarrow> int \<Rightarrow> (unit, physical_memory) res" where
  "physical_write pm addr =
     (if \<not> (addr \<ge> 0 \<and> addr < pm_size pm) then Raise AssertionError pm
      else if pm_block_size pm = 0 then Raise ZeroDivisionError pm
      else Ok () (pm\<lparr>pm_printer := pm_printer pm @ [PhysWrite (addr div pm_block_size pm)]\<rparr>))"

section \<open>SetAssocCache\<close>

record cache_line =
  cl_tag :: int
  cl_valid :: bool
  cl_dirty :: bool
  cl_timer :: int

record cache =
  c_physical :: physical_memory
  c_size :: int
  c_associativity :: int
  c_block_size :: int
  c_data :: "cache_line list list"
  c_printer :: "event list"

definition cache_init :: "physical_memory \<Rightarrow> int \<Rightarrow> int \<Rightarrow> error + cache" where
  "cache_init pm sz assoc =
     (if assoc * pm_block_size pm = 0 then Inl ZeroDivisionError
      else if sz mod (assoc * pm_block_size pm) \<noteq> 0 then Inl AssertionError
      else Inr \<lparr>c_physical = pm, c_size = sz, c_associativity = assoc,
                c_block_size = pm_block_size pm,
                c_data = replicate (nat (sz div (assoc * pm_block_size pm)))
                           (replicate (nat assoc)
                              \<lparr>cl_tag = 0, cl_valid = False, cl_dirty = False, cl_timer = 0\<rparr>),
                c_printer = []\<rparr>)"

text \<open>\<^verbatim>\<open>_get_addr_info\<close>: (tag, set index, address inside the block).\<close>

definition cache_get_addr_info :: "cache \<Rightarrow> int \<Rightarrow> error + (int \<times> int \<times> int)" where
  "cache_get_addr_info c addr =
     (if c_associativity c = 0 then Inl ZeroDivisionError
      else let transp_size = c_size c div c_associativity c in
        if transp_size = 0 then Inl ZeroDivisionError
        else if c_block_size c = 0 then Inl ZeroDivisionError
        else Inr (addr div transp_size,
                  (addr mod transp_size) div c_block_size c,
                  addr mod transp_size mod c_block_size c))"

definition cache_get_addr :: "cache \<Rightarrow> int \<Rightarrow> int \<Rightarrow> int \<Rightarrow> error + int" where
  "cache_get_addr c tg idx block_addr =
     (if c_associativity c = 0 then Inl ZeroDivisionError
      else Inr (tg * (c_size c div c_associativity c) + idx * c_block_size c + block_addr))"

text \<open>
  \<^verbatim>\<open>next((way for way in range(associativity) if p(data[idx][way])), None)\<close>: the ways
  are tried in order, and reading a way the set does not have raises IndexError.
\<close>

fun next_way :: "(cache_line \<Rightarrow> bool) \<Rightarrow> cache_line list \<Rightarrow> nat list \<Rightarrow> error + nat option" where
  "next_way P row [] = Inr None"
| "next_way P row (w # ws) =
     (if \<not> w < length row then Inl IndexError
      else if P (row ! w) then Inr (Some w)
      else next_way P row ws)"

text \<open>
  \<^verbatim>\<open>max(range(associativity), key=lambda way: data[idx][way].timer)\<close>: the first way
  is the candidate, a later way replaces it only with a strictly greater timer, and an
  empty range raises ValueError.
\<close>

fun max_way_from :: "cache_line list \<Rightarrow> nat \<Rightarrow> nat list \<Rightarrow> error + nat" where
  "max_way_from row best [] = Inr best"
| "max_way_from row best (w # ws) =
     (if \<not> w < length row then Inl IndexError
      else if cl_timer (row ! w) > cl_timer (row ! best) then max_way_from row w ws
      else max_way_from row best ws)"

definition max_way :: "cache_line list \<Rightarrow> nat list \<Rightarrow> error + nat" where
  "max_way row ways =
     (case ways of
        [] \<Rightarrow> Inl ValueError
      | w # ws \<Rightarrow> if \<not> w < length row then Inl IndexError else max_way_from row w ws)"

text \<open>
  \<^verbatim>\<open>_swap_out(idx, way)\<close>. The way is a natural number: every caller takes it from
  \<^verbatim>\<open>range(associativity)\<close>, so \<^verbatim>\<open>way >= 0\<close> holds.
\<close>

definition cache_swap_out :: "cache \<Rightarrow> int \<Rightarrow> nat \<Rightarrow> (unit, cache) res" where
  "cache_swap_out c idx way =
     (if \<not> (idx \<ge> 0 \<and> idx < int (length (c_data c))) then Raise AssertionError c
      else if \<not> (int way < c_associativity c) then Raise AssertionError c
      else let row = c_data c ! nat idx in
        if \<not> way < length row then Raise IndexError c
        else let line = row ! way in
          if \<not> cl_valid line then Raise AssertionError c
          else
            (case
               (if cl_dirty line then
                  (let c1 = c\<lparr>c_printer := c_printer c @
                              [CacheDirtyWriteBack (idx * c_associativity c + int way)]\<rparr>
                   in case cache_get_addr c1 (cl_tag line) idx 0 of
                        Inl e \<Rightarrow> Raise e c1
                      | Inr a \<Rightarrow>
                          (case physical_write (c_physical c1) a of
                             Raise e p \<Rightarrow> Raise e (c1\<lparr>c_physical := p\<rparr>)
                           | Ok u p \<Rightarrow> Ok () (c1\<lparr>c_physical := p\<rparr>)))
                else Ok () (c\<lparr>c_printer := c_printer c @
                              [CacheCleanNoWriteBack (idx * c_associativity c + int way)]\<rparr>))
             of
               Raise e c2 \<Rightarrow> Raise e c2
             | Ok u c2 \<Rightarrow>
                 Ok () (c2\<lparr>c_data := (c_data c2)
                          [nat idx := row[way := line\<lparr>cl_valid := False\<rparr>]]\<rparr>)))"

text \<open>
  \<^verbatim>\<open>_swap_in(tag, idx)\<close>, returning the way. \<^verbatim>\<open>math.ceil(physical.size / size)\<close> is the
  ceiling of the exact quotient (the float quotient is exact below \<open>2^53\<close>); the
  \<^verbatim>\<open>and\<close> of the first assertion does not divide when the tag is negative.
\<close>

definition cache_swap_in :: "cache \<Rightarrow> int \<Rightarrow> int \<Rightarrow> (nat, cache) res" where
  "cache_swap_in c tg idx =
     (if \<not> tg \<ge> 0 then Raise AssertionError c
      else if c_size c = 0 then Raise ZeroDivisionError c
      else if \<not> tg < - ((- pm_size (c_physical c)) div c_size c) then Raise AssertionError c
      else if \<not> (idx \<ge> 0 \<and> idx < int (length (c_data c))) then Raise AssertionError c
      else let row = c_data c ! nat idx; ways = [0..<nat (c_associativity c)] in
        (case next_way (\<lambda>l. \<not> cl_valid l) row ways of
           Inl e \<Rightarrow> Raise e c
         | Inr free \<Rightarrow>
             (case
                (case free of
                   Some w \<Rightarrow> Ok w c
                 | None \<Rightarrow>
                     (let c1 = c\<lparr>c_printer := c_printer c @ [CacheSetFull]\<rparr>
                      in case max_way row ways of
                           Inl e \<Rightarrow> Raise e c1
                         | Inr w \<Rightarrow>
                             (case cache_swap_out c1 idx w of
                                Raise e c2 \<Rightarrow> Raise e c2
                              | Ok u c2 \<Rightarrow> Ok w c2)))
              of
                Raise e c2 \<Rightarrow> Raise e c2
              | Ok w c2 \<Rightarrow>
                  (case cache_get_addr c2 tg idx 0 of
                     Inl e \<Rightarrow> Raise e c2
                   | Inr a \<Rightarrow>
                       (case physical_read (c_physical c2) a of
                          Raise e p \<Rightarrow> Raise e (c2\<lparr>c_physical := p\<rparr>)
                        | Ok u p \<Rightarrow>
                            (let row2 = c_data c2 ! nat idx
                             in Ok w (c2\<lparr>c_physical := p,
                                  c_printer := c_printer c2 @ [CacheBlockLoaded],
                                  c_data := (c_data c2)
                                    [nat idx := row2[w := (row2 ! w)
                                       \<lparr>cl_tag := tg, cl_valid := True, cl_dirty := False\<rparr>]]\<rparr>)))))))"

text \<open>
  \<^verbatim>\<open>read\<close> and \<^verbatim>\<open>write\<close> are the same statements but for \<^verbatim>\<open>line.dirty = True\<close> in
  \<^verbatim>\<open>write\<close>, so one body with that flag models both. The last two statements set
  the accessed line's timer to 0 and then add 1 to the timer of every line of the set,
  the accessed one included.
\<close>

definition cache_touch :: "bool \<Rightarrow> nat \<Rightarrow> cache_line list \<Rightarrow> cache_line list" where
  "cache_touch wr w row =
     map (\<lambda>l. l\<lparr>cl_timer := cl_timer l + 1\<rparr>)
       (row[w := (if wr then (row ! w)\<lparr>cl_dirty := True, cl_timer := 0\<rparr>
                  else (row ! w)\<lparr>cl_timer := 0\<rparr>)])"

definition cache_access :: "bool \<Rightarrow> cache \<Rightarrow> int \<Rightarrow> (unit, cache) res" where
  "cache_access wr c addr =
     (if \<not> (addr \<ge> 0 \<and> addr < pm_size (c_physical c)) then Raise AssertionError c
      else case cache_get_addr_info c addr of
        Inl e \<Rightarrow> Raise e c
      | Inr (tg, idx, block_addr) \<Rightarrow>
          (case py_index (length (c_data c)) idx of
             None \<Rightarrow> Raise IndexError c
           | Some i \<Rightarrow>
               (case
                  (case first_index (\<lambda>l. cl_valid l \<and> cl_tag l = tg) (c_data c ! i) of
                     Some w \<Rightarrow> Ok w (c\<lparr>c_printer := c_printer c @ [CacheHit]\<rparr>)
                   | None \<Rightarrow> cache_swap_in (c\<lparr>c_printer := c_printer c @ [CacheMiss]\<rparr>) tg idx)
                of
                  Raise e c1 \<Rightarrow> Raise e c1
                | Ok w c1 \<Rightarrow>
                    Ok () (c1\<lparr>c_data := (c_data c1)[i := cache_touch wr w (c_data c1 ! i)]\<rparr>))))"

definition cache_read :: "cache \<Rightarrow> int \<Rightarrow> (unit, cache) res" where
  "cache_read = cache_access False"

definition cache_write :: "cache \<Rightarrow> int \<Rightarrow> (unit, cache) res" where
  "cache_write = cache_access True"

text \<open>
  \<^verbatim>\<open>invalidate(begin, end)\<close>: the loop over the block-aligned addresses, left at the
  first exception.
\<close>

fun cache_invalidate_loop :: "cache \<Rightarrow> int list \<Rightarrow> (unit, cache) res" where
  "cache_invalidate_loop c [] = Ok () c"
| "cache_invalidate_loop c (addr # addrs) =
     (case cache_get_addr_info c addr of
        Inl e \<Rightarrow> Raise e c
      | Inr (tg, idx, block_addr) \<Rightarrow>
          (case py_index (length (c_data c)) idx of
             None \<Rightarrow> Raise IndexError c
           | Some i \<Rightarrow>
               (case next_way (\<lambda>l. cl_valid l \<and> cl_tag l = tg) (c_data c ! i)
                       [0..<nat (c_associativity c)] of
                  Inl e \<Rightarrow> Raise e c
                | Inr None \<Rightarrow> cache_invalidate_loop c addrs
                | Inr (Some w) \<Rightarrow>
                    (case cache_swap_out c idx w of
                       Raise e c1 \<Rightarrow> Raise e c1
                     | Ok u c1 \<Rightarrow> cache_invalidate_loop c1 addrs))))"

definition cache_invalidate :: "cache \<Rightarrow> int \<Rightarrow> int \<Rightarrow> (unit, cache) res" where
  "cache_invalidate c begin_addr end_addr =
     (if c_block_size c = 0 then Raise ZeroDivisionError c
      else cache_invalidate_loop c
             (py_range (begin_addr - begin_addr mod c_block_size c) end_addr (c_block_size c)))"

section \<open>VirtualMemory\<close>

record page =
  pg_physical :: int
  pg_dirty :: bool

text \<open>
  The page table is a dict from virtual page numbers to \<^verbatim>\<open>Page\<close> objects, the free
  frames are a set, the LRU queue is a deque with the least recently used page first.
\<close>

record virtual_memory =
  vm_main_mem :: cache
  vm_size :: int
  vm_page_size :: int
  vm_page_table :: "int \<rightharpoonup> page"
  vm_frame_set :: "int set"
  vm_lru_queue :: "int list"
  vm_printer :: "event list"




text \<open>\<^verbatim>\<open>_swap_out(page)\<close>: the cache is invalidated over the frame before the frame is freed.\<close>

definition vm_swap_out :: "virtual_memory \<Rightarrow> int \<Rightarrow> (unit, virtual_memory) res" where
  "vm_swap_out vm pg =
     (if \<not> pg \<ge> 0 then Raise AssertionError vm
      else if vm_page_size vm = 0 then Raise ZeroDivisionError vm
      else if \<not> pg < vm_size vm div vm_page_size vm then Raise AssertionError vm
      else case vm_page_table vm pg of
        None \<Rightarrow> Raise AssertionError vm
      | Some line \<Rightarrow>
          (let vm1 = vm\<lparr>vm_printer := vm_printer vm @ [VmInvalidateCache]\<rparr>
           in case cache_invalidate (vm_main_mem vm1)
                     (pg_physical line * vm_page_size vm1)
                     ((pg_physical line + 1) * vm_page_size vm1) of
                Raise e c \<Rightarrow> Raise e (vm1\<lparr>vm_main_mem := c\<rparr>)
              | Ok u c \<Rightarrow>
                  (let vm2 = vm1\<lparr>vm_main_mem := c\<rparr>;
                       vm3 = (if pg_dirty line
                              then vm2\<lparr>vm_printer := vm_printer vm2 @ [VmWriteBack pg]\<rparr>
                              else vm2);
                       vm4 = vm3\<lparr>vm_frame_set := insert (pg_physical line) (vm_frame_set vm3)\<rparr>
                   in if pg \<notin> set (vm_lru_queue vm4) then Raise ValueError vm4
                      else Ok () (vm4\<lparr>vm_lru_queue := remove1 pg (vm_lru_queue vm4),
                                       vm_page_table := (vm_page_table vm4)(pg := None)\<rparr>))))"

text \<open>
  \<^verbatim>\<open>_swap_in(page)\<close>, returning the evicted page if there is one. The new entry is put
  in the page table first; \<^verbatim>\<open>frame_set.pop()\<close> takes some member of the set, which
  member is not specified: \<open>pick\<close> is that choice. The frame is written to the
  \<^verbatim>\<open>Page\<close> object created at the start, which is still the page table's entry unless
  the eviction deleted it.
\<close>

definition vm_swap_in ::
  "(int set \<Rightarrow> int) \<Rightarrow> virtual_memory \<Rightarrow> int \<Rightarrow> (int option, virtual_memory) res" where
  "vm_swap_in pick vm pg =
     (if \<not> pg \<ge> 0 then Raise AssertionError vm
      else if vm_page_size vm = 0 then Raise ZeroDivisionError vm
      else if \<not> pg < vm_size vm div vm_page_size vm then Raise AssertionError vm
      else if vm_page_table vm pg \<noteq> None then Raise AssertionError vm
      else let vm1 = vm\<lparr>vm_page_table :=
                           (vm_page_table vm)(pg \<mapsto> \<lparr>pg_physical = 0, pg_dirty = False\<rparr>)\<rparr>
      in case
           (if vm_frame_set vm1 = {} then
              (let vm2 = vm1\<lparr>vm_printer := vm_printer vm1 @ [VmFull]\<rparr>
               in case vm_lru_queue vm2 of
                    [] \<Rightarrow> Raise IndexError vm2
                  | victim # rest \<Rightarrow>
                      (case vm_swap_out vm2 victim of
                         Raise e vm3 \<Rightarrow> Raise e vm3
                       | Ok u vm3 \<Rightarrow> Ok (Some victim) vm3))
            else Ok None vm1)
         of
           Raise e vm3 \<Rightarrow> Raise e vm3
         | Ok swapped vm3 \<Rightarrow>
             (if vm_frame_set vm3 = {} then Raise KeyError vm3
              else let frame = pick (vm_frame_set vm3) in
                Ok swapped
                  (vm3\<lparr>vm_frame_set := vm_frame_set vm3 - {frame},
                        vm_page_table :=
                          (case vm_page_table vm3 pg of
                             None \<Rightarrow> vm_page_table vm3
                           | Some l \<Rightarrow> (vm_page_table vm3)(pg \<mapsto> l\<lparr>pg_physical := frame\<rparr>)),
                        vm_lru_queue := vm_lru_queue vm3 @ [pg],
                        vm_printer := vm_printer vm3 @ [VmLoaded pg]\<rparr>)))"

text \<open>
  \<^verbatim>\<open>read\<close> and \<^verbatim>\<open>write\<close> differ in the cache operation they call and in the
  \<^verbatim>\<open>line.dirty = True\<close> that ends \<^verbatim>\<open>write\<close>.
\<close>

definition vm_access ::
  "bool \<Rightarrow> (int set \<Rightarrow> int) \<Rightarrow> virtual_memory \<Rightarrow> int \<Rightarrow> (unit, virtual_memory) res" where
  "vm_access wr pick vm addr =
     (if \<not> (addr \<ge> 0 \<and> addr < vm_size vm) then Raise AssertionError vm
      else if vm_page_size vm = 0 then Raise ZeroDivisionError vm
      else let pg = addr div vm_page_size vm; page_addr = addr mod vm_page_size vm
      in case
           (if vm_page_table vm pg \<noteq> None then
              (let vm1 = vm\<lparr>vm_printer := vm_printer vm @ [VmResident]\<rparr>
               in if pg \<notin> set (vm_lru_queue vm1) then Raise ValueError vm1
                  else Ok () (vm1\<lparr>vm_lru_queue := remove1 pg (vm_lru_queue vm1) @ [pg]\<rparr>))
            else
              (case vm_swap_in pick (vm\<lparr>vm_printer := vm_printer vm @ [VmFault]\<rparr>) pg of
                 Raise e vm1 \<Rightarrow> Raise e vm1
               | Ok swapped vm1 \<Rightarrow> Ok () vm1))
         of
           Raise e vm1 \<Rightarrow> Raise e vm1
         | Ok u vm1 \<Rightarrow>
             (case vm_page_table vm1 pg of
                None \<Rightarrow> Raise KeyError vm1
              | Some line \<Rightarrow>
                  (case cache_access wr (vm_main_mem vm1)
                          (pg_physical line * vm_page_size vm1 + page_addr) of
                     Raise e c \<Rightarrow> Raise e (vm1\<lparr>vm_main_mem := c\<rparr>)
                   | Ok u c \<Rightarrow>
                       Ok () (if wr
                              then vm1\<lparr>vm_main_mem := c,
                                       vm_page_table :=
                                         (vm_page_table vm1)(pg \<mapsto> line\<lparr>pg_dirty := True\<rparr>)\<rparr>
                              else vm1\<lparr>vm_main_mem := c\<rparr>))))"

definition vm_read :: "(int set \<Rightarrow> int) \<Rightarrow> virtual_memory \<Rightarrow> int \<Rightarrow> (unit, virtual_memory) res" where
  "vm_read = vm_access False"

definition vm_write :: "(int set \<Rightarrow> int) \<Rightarrow> virtual_memory \<Rightarrow> int \<Rightarrow> (unit, virtual_memory) res" where
  "vm_write = vm_access True"

section \<open>FullyAssocTLB\<close>

record tlb_line =
  tl_virtual :: int
  tl_physical :: int
  tl_valid :: bool
  tl_dirty :: bool
  tl_dirty_dirty :: bool

record tlb =
  tlb_virtual_mem :: virtual_memory
  tlb_table :: "tlb_line list"
  tlb_lru_queue :: "int list"
  tlb_printer :: "event list"

definition tlb_init :: "virtual_memory \<Rightarrow> int \<Rightarrow> tlb" where
  "tlb_init vm sz =
     \<lparr>tlb_virtual_mem = vm,
      tlb_table = replicate (nat sz)
        \<lparr>tl_virtual = 0, tl_physical = 0, tl_valid = False, tl_dirty = False,
         tl_dirty_dirty = False\<rparr>,
      tlb_lru_queue = [], tlb_printer = []\<rparr>"

text \<open>
  \<^verbatim>\<open>_swap_out(idx)\<close>: the dirty bit goes to the page table when \<^verbatim>\<open>dirty_dirty\<close> is
  set, the line is marked invalid, and then the index is removed from the LRU queue.
\<close>

definition tlb_swap_out :: "tlb \<Rightarrow> int \<Rightarrow> (unit, tlb) res" where
  "tlb_swap_out t idx =
     (if \<not> (0 \<le> idx \<and> idx < int (length (tlb_table t))) then Raise AssertionError t
      else let line = tlb_table t ! nat idx in
        case
          (if tl_dirty_dirty line then
             (let t1 = t\<lparr>tlb_printer := tlb_printer t @ [TlbDirtyWriteBack]\<rparr>;
                  vm = tlb_virtual_mem t1
              in case vm_page_table vm (tl_virtual line) of
                   None \<Rightarrow> Raise KeyError t1
                 | Some l \<Rightarrow>
                     Ok () (t1\<lparr>tlb_virtual_mem := vm\<lparr>vm_page_table :=
                              (vm_page_table vm)(tl_virtual line \<mapsto> l\<lparr>pg_dirty := True\<rparr>)\<rparr>\<rparr>))
           else Ok () t)
        of
          Raise e t2 \<Rightarrow> Raise e t2
        | Ok u t2 \<Rightarrow>
            (let t3 = t2\<lparr>tlb_table := (tlb_table t2)[nat idx := line\<lparr>tl_valid := False\<rparr>]\<rparr>
             in if idx \<notin> set (tlb_lru_queue t3) then Raise ValueError t3
                else Ok () (t3\<lparr>tlb_lru_queue := remove1 idx (tlb_lru_queue t3),
                                 tlb_printer := tlb_printer t3 @
                                   [TlbInvalidated (tl_virtual line)]\<rparr>)))"

text \<open>
  \<^verbatim>\<open>_swap_in(page)\<close>, returning the slot. The slot found by \<^verbatim>\<open>enumerate\<close> is inside
  the table; the slot read from the head of the LRU queue has passed the assertion of
  \<^verbatim>\<open>_swap_out\<close>, so \<^verbatim>\<open>table[idx]\<close> is a plain index in both cases. Nothing here
  appends to the LRU queue.
\<close>

definition tlb_swap_in :: "(int set \<Rightarrow> int) \<Rightarrow> tlb \<Rightarrow> int \<Rightarrow> (int, tlb) res" where
  "tlb_swap_in pick t pg =
     (if \<not> pg \<ge> 0 then Raise AssertionError t
      else if vm_page_size (tlb_virtual_mem t) = 0 then Raise ZeroDivisionError t
      else if \<not> pg < vm_size (tlb_virtual_mem t) div vm_page_size (tlb_virtual_mem t)
        then Raise AssertionError t
      else case
          (case first_index (\<lambda>l. \<not> tl_valid l) (tlb_table t) of
             Some i \<Rightarrow> Ok (int i) t
           | None \<Rightarrow>
               (let t1 = t\<lparr>tlb_printer := tlb_printer t @ [TlbFull]\<rparr>
                in case tlb_lru_queue t1 of
                     [] \<Rightarrow> Raise IndexError t1
                   | idx # rest \<Rightarrow>
                       (case tlb_swap_out t1 idx of
                          Raise e t2 \<Rightarrow> Raise e t2
                        | Ok u t2 \<Rightarrow> Ok idx t2)))
        of
          Raise e t2 \<Rightarrow> Raise e t2
        | Ok idx t2 \<Rightarrow>
            (case
               (if vm_page_table (tlb_virtual_mem t2) pg = None then
                  (case vm_swap_in pick (tlb_virtual_mem t2) pg of
                     Raise e vm \<Rightarrow> Raise e (t2\<lparr>tlb_virtual_mem := vm\<rparr>)
                   | Ok None vm \<Rightarrow> Ok () (t2\<lparr>tlb_virtual_mem := vm\<rparr>)
                   | Ok (Some swapped) vm \<Rightarrow>
                       (let t3 = t2\<lparr>tlb_virtual_mem := vm,
                                    tlb_printer := tlb_printer t2 @ [TlbVmSwapped]\<rparr>
                        in case first_index (\<lambda>l. tl_virtual l = swapped) (tlb_table t3) of
                             None \<Rightarrow> Ok () t3
                           | Some si \<Rightarrow> tlb_swap_out t3 (int si)))
                else Ok () t2)
             of
               Raise e t4 \<Rightarrow> Raise e t4
             | Ok u t4 \<Rightarrow>
                 (case vm_page_table (tlb_virtual_mem t4) pg of
                    None \<Rightarrow> Raise KeyError t4
                  | Some source_line \<Rightarrow>
                      Ok idx
                        (t4\<lparr>tlb_table := (tlb_table t4)
                               [nat idx := (tlb_table t4 ! nat idx)
                                  \<lparr>tl_valid := True, tl_dirty := pg_dirty source_line,
                                   tl_dirty_dirty := False, tl_virtual := pg,
                                   tl_physical := pg_physical source_line\<rparr>],
                             tlb_printer := tlb_printer t4 @ [TlbLoaded pg]\<rparr>))))"

text \<open>
  \<^verbatim>\<open>read\<close> and \<^verbatim>\<open>write\<close>: on a hit the cache is accessed at the address the TLB line
  translates to (and \<^verbatim>\<open>write\<close> sets both dirty flags when neither is set); on a miss
  the access goes through \<^verbatim>\<open>virtual_mem\<close> and then \<^verbatim>\<open>_swap_in\<close> loads the line.
\<close>

definition tlb_access :: "bool \<Rightarrow> (int set \<Rightarrow> int) \<Rightarrow> tlb \<Rightarrow> int \<Rightarrow> (unit, tlb) res" where
  "tlb_access wr pick t addr =
     (let vm = tlb_virtual_mem t in
      if \<not> (addr \<ge> 0 \<and> addr < vm_size vm) then Raise AssertionError t
      else if vm_page_size vm = 0 then Raise ZeroDivisionError t
      else let pg = addr div vm_page_size vm; page_addr = addr mod vm_page_size vm
      in case first_index (\<lambda>l. tl_valid l \<and> tl_virtual l = pg) (tlb_table t) of
           Some i \<Rightarrow>
             (let line = tlb_table t ! i;
                  t1 = t\<lparr>tlb_printer := tlb_printer t @ [TlbHit]\<rparr>
              in case cache_access wr (vm_main_mem vm)
                        (tl_physical line * vm_page_size vm + page_addr) of
                   Raise e c \<Rightarrow> Raise e (t1\<lparr>tlb_virtual_mem := vm\<lparr>vm_main_mem := c\<rparr>\<rparr>)
                 | Ok u c \<Rightarrow>
                     (let t2 = t1\<lparr>tlb_virtual_mem := vm\<lparr>vm_main_mem := c\<rparr>\<rparr>
                      in Ok () (if wr \<and> \<not> (tl_dirty line \<or> tl_dirty_dirty line)
                                then t2\<lparr>tlb_table := (tlb_table t2)
                                         [i := line\<lparr>tl_dirty := True, tl_dirty_dirty := True\<rparr>]\<rparr>
                                else t2)))
         | None \<Rightarrow>
             (let t1 = t\<lparr>tlb_printer := tlb_printer t @ [TlbMiss]\<rparr>
              in case vm_access wr pick vm addr of
                   Raise e vm1 \<Rightarrow> Raise e (t1\<lparr>tlb_virtual_mem := vm1\<rparr>)
                 | Ok u vm1 \<Rightarrow>
                     (case tlb_swap_in pick (t1\<lparr>tlb_virtual_mem := vm1\<rparr>) pg of
                        Raise e t2 \<Rightarrow> Raise e t2
                      | Ok idx t2 \<Rightarrow> Ok () t2)))"

definition tlb_read :: "(int set \<Rightarrow> int) \<Rightarrow> tlb \<Rightarrow> int \<Rightarrow> (unit, tlb) res" where
  "tlb_read = tlb_access False"

definition tlb_write :: "(int set \<Rightarrow> int) \<Rightarrow> tlb \<Rightarrow> int \<Rightarrow> (unit, tlb) res" where
  "tlb_write = tlb_access True"

section \<open>The front end's driver\<close>

text \<open>
  \<^verbatim>\<open>access()\<close> of \<^verbatim>\<open>mygui.py\<close> sends each entry of the access list to \<^verbatim>\<open>tlb.read\<close>
  or \<^verbatim>\<open>tlb.write\<close>; an exception ends the run. \<open>True\<close> stands for mode \<^verbatim>\<open>'W'\<close>.
\<close>

fun tlb_run :: "(int set \<Rightarrow> int) \<Rightarrow> tlb \<Rightarrow> (bool \<times> int) list \<Rightarrow> (unit, tlb) res" where
  "tlb_run pick t [] = Ok () t"
| "tlb_run pick t ((wr, addr) # rest) =
     (case tlb_access wr pick t addr of
        Raise e t1 \<Rightarrow> Raise e t1
      | Ok u t1 \<Rightarrow> tlb_run pick t1 rest)"

text \<open>
  A small configuration: blocks of 4 bytes, a direct-mapped cache of two sets, pages of
  8 bytes in a virtual space of 32 bytes, over \<open>n\<close> bytes of physical memory and with a
  TLB of \<open>k\<close> lines.
\<close>

definition demo_physical :: "int \<Rightarrow> physical_memory" where
  "demo_physical n = \<lparr>pm_size = n, pm_block_size = 4, pm_printer = []\<rparr>"

definition demo_cache :: "int \<Rightarrow> cache" where
  "demo_cache n =
     \<lparr>c_physical = demo_physical n, c_size = 8, c_associativity = 1, c_block_size = 4,
      c_data = replicate 2 [\<lparr>cl_tag = 0, cl_valid = False, cl_dirty = False, cl_timer = 0\<rparr>],
      c_printer = []\<rparr>"

definition demo_vm :: "int \<Rightarrow> virtual_memory" where
  "demo_vm n =
     \<lparr>vm_main_mem = demo_cache n, vm_size = 32, vm_page_size = 8,
      vm_page_table = Map.empty, vm_frame_set = {0..<n div 8},
      vm_lru_queue = [], vm_printer = []\<rparr>"

definition demo_tlb :: "int \<Rightarrow> int \<Rightarrow> tlb" where
  "demo_tlb n k = tlb_init (demo_vm n) k"

section \<open>Invariants and reachable states\<close>


text \<open>Every valid TLB line names a resident page and that page's frame.\<close>

definition tlb_consistent :: "tlb \<Rightarrow> bool" where
  "tlb_consistent t =
     (\<forall>l \<in> set (tlb_table t). tl_valid l \<longrightarrow>
        (case vm_page_table (tlb_virtual_mem t) (tl_virtual l) of
           None \<Rightarrow> False
         | Some e \<Rightarrow> pg_physical e = tl_physical l))"

text \<open>Some valid line of the TLB holds the page of the address.\<close>

definition tlb_hit :: "tlb \<Rightarrow> int \<Rightarrow> bool" where
  "tlb_hit t addr =
     (\<exists>l \<in> set (tlb_table t).
        tl_valid l \<and> tl_virtual l = addr div vm_page_size (tlb_virtual_mem t))"

text \<open>No two valid lines of a set have the same tag.\<close>

definition row_tags_unique :: "cache_line list \<Rightarrow> bool" where
  "row_tags_unique row =
     (\<forall>i<length row. \<forall>j<length row.
        i \<noteq> j \<and> cl_valid (row ! i) \<and> cl_valid (row ! j) \<longrightarrow> cl_tag (row ! i) \<noteq> cl_tag (row ! j))"

definition tags_unique :: "cache \<Rightarrow> bool" where
  "tags_unique c = (\<forall>row \<in> set (c_data c). row_tags_unique row)"

text \<open>
  The states of a cache: what the constructor returns, and what a \<^verbatim>\<open>read\<close>, a
  \<^verbatim>\<open>write\<close> or an \<^verbatim>\<open>invalidate\<close> leaves, whether it returned or raised.
\<close>

inductive cache_reachable :: "cache \<Rightarrow> bool" where
  cr_init: "cache_init pm sz assoc = Inr c \<Longrightarrow> cache_reachable c"
| cr_read: "cache_reachable c \<Longrightarrow> cache_read c addr = Ok () c' \<Longrightarrow> cache_reachable c'"
| cr_write: "cache_reachable c \<Longrightarrow> cache_write c addr = Ok () c' \<Longrightarrow> cache_reachable c'"
| cr_invalidate:
    "cache_reachable c \<Longrightarrow> cache_invalidate c begin_addr end_addr = Ok () c' \<Longrightarrow> cache_reachable c'"
| cr_read_raise:
    "cache_reachable c \<Longrightarrow> cache_read c addr = Raise e c' \<Longrightarrow> cache_reachable c'"
| cr_write_raise:
    "cache_reachable c \<Longrightarrow> cache_write c addr = Raise e c' \<Longrightarrow> cache_reachable c'"
| cr_invalidate_raise:
    "cache_reachable c \<Longrightarrow> cache_invalidate c begin_addr end_addr = Raise e c' \<Longrightarrow>
     cache_reachable c'"

text \<open>
  A two-way cache of a single set, over 32 bytes of physical memory (tags 0 to 3 pass
  the assertion of \<^verbatim>\<open>_swap_in\<close>).
\<close>

definition demo_assoc_cache :: cache where
  "demo_assoc_cache =
     \<lparr>c_physical = demo_physical 32, c_size = 8, c_associativity = 2, c_block_size = 4,
      c_data = [replicate 2 \<lparr>cl_tag = 0, cl_valid = False, cl_dirty = False, cl_timer = 0\<rparr>],
      c_printer = []\<rparr>"

text \<open>
  The shape the constructor gives a cache when its sizes are positive: as many sets as
  \<^verbatim>\<open>size // (associativity * block_size)\<close>, each of \<^verbatim>\<open>associativity\<close> lines, and the
  block size of the physical memory.
\<close>

definition cache_wf :: "cache \<Rightarrow> bool" where
  "cache_wf c =
     (0 < c_block_size c \<and> 0 < c_associativity c \<and> 0 < c_size c
      \<and> c_size c mod (c_associativity c * c_block_size c) = 0
      \<and> pm_block_size (c_physical c) = c_block_size c
      \<and> int (length (c_data c)) = c_size c div (c_associativity c * c_block_size c)
      \<and> (\<forall>row \<in> set (c_data c). int (length row) = c_associativity c))"

text \<open>The block of every valid line lies inside the physical memory.\<close>

definition lines_in_memory :: "cache \<Rightarrow> bool" where
  "lines_in_memory c =
     (\<forall>i<length (c_data c). \<forall>w<length (c_data c ! i).
        cl_valid (c_data c ! i ! w) \<longrightarrow>
          0 \<le> cl_tag (c_data c ! i ! w) * (c_size c div c_associativity c)
                + int i * c_block_size c
          \<and> cl_tag (c_data c ! i ! w) * (c_size c div c_associativity c)
                + int i * c_block_size c < pm_size (c_physical c))"

definition cache_inv :: "cache \<Rightarrow> bool" where
  "cache_inv c = (cache_wf c \<and> tags_unique c \<and> lines_in_memory c)"

text \<open>Some valid line caches the address: a read of it would hit.\<close>

definition cached_at :: "cache \<Rightarrow> int \<Rightarrow> bool" where
  "cached_at c addr =
     (case cache_get_addr_info c addr of
        Inl e \<Rightarrow> False
      | Inr (tg, idx, block_addr) \<Rightarrow>
          (case py_index (length (c_data c)) idx of
             None \<Rightarrow> False
           | Some i \<Rightarrow> (\<exists>l \<in> set (c_data c ! i). cl_valid l \<and> cl_tag l = tg)))"

text \<open>The two-way cache after a write of address 0 and a read of address 4: its set is full.\<close>

definition demo_full_cache :: cache where
  "demo_full_cache = res_state (cache_read (res_state (cache_write demo_assoc_cache 0)) 4)"






section \<open>Properties\<close>

subsection \<open>Searching a list\<close>

lemma first_index_None: "first_index P xs = None \<longleftrightarrow> (\<forall>x \<in> set xs. \<not> P x)"
  by (induction xs) auto

lemma first_index_Some:
  "first_index P xs = Some i \<Longrightarrow> i < length xs \<and> P (xs ! i) \<and> (\<forall>j<i. \<not> P (xs ! j))"
proof (induction xs arbitrary: i)
  case Nil
  then show ?case by simp
next
  case (Cons x xs)
  show ?case
  proof (cases "P x")
    case True
    with Cons.prems show ?thesis by simp
  next
    case False
    with Cons.prems obtain k where k: "first_index P xs = Some k" "i = Suc k"
      by auto
    from Cons.IH [OF k(1)] False k(2) show ?thesis
      by (auto simp: nth_Cons split: nat.splits)
  qed
qed

subsection \<open>The TLB and the pages it names\<close>

text \<open>
  C1 (the code departs from it). The claim: after every completed \<^verbatim>\<open>FullyAssocTLB.read\<close>
  or \<^verbatim>\<open>write\<close>, every valid TLB line names a resident page and that page's frame; a
  TLB line of a page that VirtualMemory evicts while a miss is served is invalidated.
  In the code, \<^verbatim>\<open>read\<close> calls \<^verbatim>\<open>virtual_mem.read\<close> first, which swaps the page in
  and drops the evicted page's number, so the branch of \<^verbatim>\<open>_swap_in\<close> that would
  invalidate the stale line never runs. With one frame and two TLB lines, reading page 0
  and then page 1 both return, and line 0 stays valid for page 0, which is no longer
  resident.
\<close>

theorem tlb_stale_line_after_page_eviction:
  "is_ok (tlb_run Min (demo_tlb 8 2) [(False, 0), (False, 8)])
   \<and> tl_valid (tlb_table (res_state (tlb_run Min (demo_tlb 8 2) [(False, 0), (False, 8)])) ! 0)
   \<and> tl_virtual (tlb_table (res_state (tlb_run Min (demo_tlb 8 2) [(False, 0), (False, 8)])) ! 0) = 0
   \<and> vm_page_table (tlb_virtual_mem
        (res_state (tlb_run Min (demo_tlb 8 2) [(False, 0), (False, 8)]))) 0 = None"
  by code_simp

lemma tlb_consistent_broken_example:
  "\<not> tlb_consistent (res_state (tlb_run Min (demo_tlb 8 2) [(False, 0), (False, 8)]))"
  by code_simp

text \<open>
  C2 (the code departs from it). The claim: after a TLB miss is served, the chosen slot
  is at the tail of the TLB's LRU order, and with every line valid the load evicts the
  slot at the head of that order. In the code nothing appends to the TLB's
  \<^verbatim>\<open>lru_queue\<close>: after the first read the loaded slot 0 is valid and the queue is
  empty, and the next miss, on a full TLB, raises IndexError at \<^verbatim>\<open>lru_queue[0]\<close>.
\<close>

theorem tlb_lru_queue_never_filled:
  "is_ok (tlb_read Min (demo_tlb 16 1) 0)
   \<and> tl_valid (tlb_table (res_state (tlb_read Min (demo_tlb 16 1) 0)) ! 0)
   \<and> tlb_lru_queue (res_state (tlb_read Min (demo_tlb 16 1) 0)) = []
   \<and> (case tlb_read Min (res_state (tlb_read Min (demo_tlb 16 1) 0)) 8 of
        Ok u t \<Rightarrow> False
      | Raise e t \<Rightarrow> e = IndexError)"
  by code_simp

subsection \<open>Writes through the TLB\<close>



subsection \<open>Reads that hit the TLB\<close>

text \<open>
  C10. A \<^verbatim>\<open>FullyAssocTLB.read\<close> that hits leaves the page table, the free-frame set
  and the page LRU queue of VirtualMemory, and the TLB's own lines and LRU queue, as they
  were, whether the cache access under it returns or raises. So the page it hits keeps
  its place in the page LRU queue.
\<close>

theorem tlb_read_hit_frame:
  assumes "tlb_hit t addr"
  shows "vm_page_table (tlb_virtual_mem (res_state (tlb_read pick t addr)))
           = vm_page_table (tlb_virtual_mem t)
       \<and> vm_frame_set (tlb_virtual_mem (res_state (tlb_read pick t addr)))
           = vm_frame_set (tlb_virtual_mem t)
       \<and> vm_lru_queue (tlb_virtual_mem (res_state (tlb_read pick t addr)))
           = vm_lru_queue (tlb_virtual_mem t)
       \<and> tlb_table (res_state (tlb_read pick t addr)) = tlb_table t
       \<and> tlb_lru_queue (res_state (tlb_read pick t addr)) = tlb_lru_queue t"
proof -
  from assms obtain i where
    "first_index (\<lambda>l. tl_valid l \<and> tl_virtual l = addr div vm_page_size (tlb_virtual_mem t))
       (tlb_table t) = Some i"
    using first_index_None
      [of "\<lambda>l. tl_valid l \<and> tl_virtual l = addr div vm_page_size (tlb_virtual_mem t)"
          "tlb_table t"]
    by (auto simp: tlb_hit_def)
  then show ?thesis
    by (simp add: tlb_read_def tlb_access_def Let_def split: res.splits)
qed

theorem tlb_read_hit_frame_witness:
  "tlb_hit (res_state (tlb_run Min (demo_tlb 16 3) [(False, 0), (False, 8)])) 1
   \<and> vm_lru_queue (tlb_virtual_mem (res_state (tlb_read Min
        (res_state (tlb_run Min (demo_tlb 16 3) [(False, 0), (False, 8)])) 1))) = [0, 1]
   \<and> is_ok (tlb_read Min (res_state (tlb_run Min (demo_tlb 16 3) [(False, 0), (False, 8)])) 1)"
proof -
  have h: "tlb_hit (res_state (tlb_run Min (demo_tlb 16 3) [(False, 0), (False, 8)])) 1"
    by code_simp
  have q: "vm_lru_queue (tlb_virtual_mem
        (res_state (tlb_run Min (demo_tlb 16 3) [(False, 0), (False, 8)]))) = [0, 1]"
    by code_simp
  have k: "is_ok (tlb_read Min
        (res_state (tlb_run Min (demo_tlb 16 3) [(False, 0), (False, 8)])) 1)"
    by code_simp
  from tlb_read_hit_frame [OF h, of Min] q k h show ?thesis by simp
qed

text \<open>
  With two frames and three TLB lines: pages 0 and 1 are read, page 0 is read again
  through a TLB hit, and the fault on page 2 then evicts page 0, the page used last.
\<close>

lemma tlb_hit_page_evicted_example:
  "is_ok (tlb_run Min (demo_tlb 16 3) [(False, 0), (False, 8), (False, 1), (False, 16)])
   \<and> vm_lru_queue (tlb_virtual_mem (res_state
      (tlb_run Min (demo_tlb 16 3) [(False, 0), (False, 8), (False, 1), (False, 16)]))) = [1, 2]
   \<and> vm_page_table (tlb_virtual_mem (res_state
      (tlb_run Min (demo_tlb 16 3) [(False, 0), (False, 8), (False, 1), (False, 16)]))) 0 = None"
  by code_simp

subsection \<open>Exceptions and the state they leave\<close>

text \<open>
  C9 as claimed fails: an operation that raises can leave the state changed. With two
  frames and one TLB line, reading page 0 and then page 1 raises IndexError in the
  second read, after \<^verbatim>\<open>virtual_mem.read\<close> has made page 1 resident.
\<close>

theorem raise_after_mutation_counterexample:
  "(case tlb_read Min (res_state (tlb_read Min (demo_tlb 16 1) 0)) 8 of
      Ok u t \<Rightarrow> False
    | Raise e t \<Rightarrow>
        e = IndexError
        \<and> vm_lru_queue (tlb_virtual_mem t) = [0, 1]
        \<and> vm_lru_queue (tlb_virtual_mem (res_state (tlb_read Min (demo_tlb 16 1) 0))) = [0]
        \<and> vm_page_table (tlb_virtual_mem t) 1 \<noteq> None
        \<and> vm_page_table (tlb_virtual_mem (res_state (tlb_read Min (demo_tlb 16 1) 0))) 1 = None)"
  by code_simp

text \<open>
  C9 (amended). A \<^verbatim>\<open>read\<close> or \<^verbatim>\<open>write\<close> of any of the four components whose address
  is outside the component's range raises AssertionError and leaves the state, the trace
  included, exactly as it was: the range assertion is the first statement.
\<close>

theorem out_of_range_leaves_state:
  "(\<not> (0 \<le> addr \<and> addr < pm_size pm) \<longrightarrow>
      physical_read pm addr = Raise AssertionError pm \<and>
      physical_write pm addr = Raise AssertionError pm)
   \<and> (\<not> (0 \<le> addr \<and> addr < pm_size (c_physical c)) \<longrightarrow>
      cache_read c addr = Raise AssertionError c \<and>
      cache_write c addr = Raise AssertionError c)
   \<and> (\<not> (0 \<le> addr \<and> addr < vm_size vm) \<longrightarrow>
      vm_read pick vm addr = Raise AssertionError vm \<and>
      vm_write pick vm addr = Raise AssertionError vm)
   \<and> (\<not> (0 \<le> addr \<and> addr < vm_size (tlb_virtual_mem t)) \<longrightarrow>
      tlb_read pick t addr = Raise AssertionError t \<and>
      tlb_write pick t addr = Raise AssertionError t)"
  by (simp add: physical_read_def physical_write_def cache_read_def cache_write_def
      cache_access_def vm_read_def vm_write_def vm_access_def tlb_read_def tlb_write_def
      tlb_access_def Let_def)

theorem out_of_range_leaves_state_witness:
  "\<not> (0 \<le> (32::int) \<and> 32 < pm_size (demo_physical 16))
   \<and> \<not> (0 \<le> (32::int) \<and> 32 < pm_size (c_physical (demo_cache 16)))
   \<and> \<not> (0 \<le> (32::int) \<and> 32 < vm_size (demo_vm 16))
   \<and> \<not> (0 \<le> (32::int) \<and> 32 < vm_size (tlb_virtual_mem (demo_tlb 16 2)))
   \<and> physical_read (demo_physical 16) 32 = Raise AssertionError (demo_physical 16)
   \<and> physical_write (demo_physical 16) 32 = Raise AssertionError (demo_physical 16)
   \<and> cache_read (demo_cache 16) 32 = Raise AssertionError (demo_cache 16)
   \<and> cache_write (demo_cache 16) 32 = Raise AssertionError (demo_cache 16)
   \<and> vm_read Min (demo_vm 16) 32 = Raise AssertionError (demo_vm 16)
   \<and> vm_write Min (demo_vm 16) 32 = Raise AssertionError (demo_vm 16)
   \<and> tlb_read Min (demo_tlb 16 2) 32 = Raise AssertionError (demo_tlb 16 2)
   \<and> tlb_write Min (demo_tlb 16 2) 32 = Raise AssertionError (demo_tlb 16 2)"
proof -
  have h: "\<not> (0 \<le> (32::int) \<and> 32 < pm_size (demo_physical 16))"
          "\<not> (0 \<le> (32::int) \<and> 32 < pm_size (c_physical (demo_cache 16)))"
          "\<not> (0 \<le> (32::int) \<and> 32 < vm_size (demo_vm 16))"
          "\<not> (0 \<le> (32::int) \<and> 32 < vm_size (tlb_virtual_mem (demo_tlb 16 2)))"
    by (simp_all add: demo_physical_def demo_cache_def demo_vm_def demo_tlb_def tlb_init_def)
  from out_of_range_leaves_state
         [of 32 "demo_physical 16" "demo_cache 16" "demo_vm 16" Min "demo_tlb 16 2"] h
  show ?thesis by blast
qed

subsection \<open>What the cache operations change\<close>

lemma next_way_Some:
  "next_way P row ws = Inr (Some w) \<Longrightarrow> w < length row \<and> P (row ! w) \<and> w \<in> set ws"
  by (induction ws) (auto split: if_splits)

lemma max_way_from_bound:
  "max_way_from row best ws = Inr w \<Longrightarrow> best < length row \<Longrightarrow> w < length row \<and> w \<in> set (best # ws)"
  by (induction ws arbitrary: best) (auto split: if_splits)

lemma max_way_bound: "max_way row ws = Inr w \<Longrightarrow> w < length row \<and> w \<in> set ws"
  by (auto simp: max_way_def split: list.splits if_splits dest: max_way_from_bound)

lemma cache_swap_out_Ok:
  assumes "cache_swap_out c idx w = Ok u c'"
  shows "0 \<le> idx \<and> idx < int (length (c_data c)) \<and> w < length (c_data c ! nat idx)
         \<and> int w < c_associativity c \<and> cl_valid (c_data c ! nat idx ! w)
         \<and> c_data c' = (c_data c)[nat idx := (c_data c ! nat idx)
                          [w := (c_data c ! nat idx ! w)\<lparr>cl_valid := False\<rparr>]]
         \<and> c_size c' = c_size c \<and> c_associativity c' = c_associativity c
         \<and> c_block_size c' = c_block_size c
         \<and> pm_size (c_physical c') = pm_size (c_physical c)
         \<and> pm_block_size (c_physical c') = pm_block_size (c_physical c)"
  using assms
  by (auto simp: cache_swap_out_def Let_def physical_write_def cache_get_addr_def
           split: if_splits res.splits sum.splits)

lemma cache_swap_in_Ok:
  assumes "cache_swap_in c tg idx = Ok w c'"
  shows "0 \<le> idx \<and> idx < int (length (c_data c)) \<and> w < length (c_data c ! nat idx)
         \<and> c_data c' = (c_data c)[nat idx := (c_data c ! nat idx)
                          [w := (c_data c ! nat idx ! w)
                             \<lparr>cl_tag := tg, cl_valid := True, cl_dirty := False\<rparr>]]
         \<and> c_size c' = c_size c \<and> c_associativity c' = c_associativity c
         \<and> c_block_size c' = c_block_size c
         \<and> pm_size (c_physical c') = pm_size (c_physical c)
         \<and> pm_block_size (c_physical c') = pm_block_size (c_physical c)"
  using assms
  by (auto simp: cache_swap_in_def Let_def physical_read_def cache_get_addr_def
           split: if_splits res.splits sum.splits option.splits
           dest!: cache_swap_out_Ok next_way_Some max_way_bound)

lemma py_index_Some: "py_index n i = Some k \<Longrightarrow> k < n \<and> (0 \<le> i \<longrightarrow> k = nat i)"
  by (auto simp: py_index_def split: if_splits)

lemma cache_access_Ok:
  assumes "cache_access wr c addr = Ok u c'"
  shows "\<exists>tg idx ba i w.
           cache_get_addr_info c addr = Inr (tg, idx, ba)
           \<and> py_index (length (c_data c)) idx = Some i
           \<and> w < length (c_data c ! i)
           \<and> (first_index (\<lambda>l. cl_valid l \<and> cl_tag l = tg) (c_data c ! i) = Some w
                \<and> c_data c' = (c_data c)[i := cache_touch wr w (c_data c ! i)]
              \<or> first_index (\<lambda>l. cl_valid l \<and> cl_tag l = tg) (c_data c ! i) = None
                \<and> c_data c' = (c_data c)[i := cache_touch wr w ((c_data c ! i)
                     [w := (c_data c ! i ! w)\<lparr>cl_tag := tg, cl_valid := True, cl_dirty := False\<rparr>])])
           \<and> c_size c' = c_size c \<and> c_associativity c' = c_associativity c
           \<and> c_block_size c' = c_block_size c
           \<and> pm_size (c_physical c') = pm_size (c_physical c)
           \<and> pm_block_size (c_physical c') = pm_block_size (c_physical c)"
proof -
  from assms obtain tg idx ba where ai: "cache_get_addr_info c addr = Inr (tg, idx, ba)"
    by (auto simp: cache_access_def split: if_splits sum.splits)
  from assms ai obtain i where pi: "py_index (length (c_data c)) idx = Some i"
    by (auto simp: cache_access_def split: if_splits option.splits)
  from py_index_Some [OF pi] have il: "i < length (c_data c)" and inat: "0 \<le> idx \<Longrightarrow> i = nat idx"
    by auto
  show ?thesis
  proof (cases "first_index (\<lambda>l. cl_valid l \<and> cl_tag l = tg) (c_data c ! i)")
    case None
    with assms ai pi obtain w c1 where
      si: "cache_swap_in (c\<lparr>c_printer := c_printer c @ [CacheMiss]\<rparr>) tg idx = Ok w c1"
      and c': "c' = c1\<lparr>c_data := (c_data c1)[i := cache_touch wr w (c_data c1 ! i)]\<rparr>"
      by (auto simp: cache_access_def split: if_splits res.splits)
    from cache_swap_in_Ok [OF si] inat il c' None ai pi show ?thesis
      by (intro exI [of _ tg] exI [of _ idx] exI [of _ ba] exI [of _ i] exI [of _ w]) simp
  next
    case (Some w)
    with assms ai pi have
      c': "c' = c\<lparr>c_printer := c_printer c @ [CacheHit],
                  c_data := (c_data c)[i := cache_touch wr w (c_data c ! i)]\<rparr>"
      by (auto simp: cache_access_def split: if_splits)
    from first_index_Some [OF Some] c' ai pi Some show ?thesis
      by (intro exI [of _ tg] exI [of _ idx] exI [of _ ba] exI [of _ i] exI [of _ w]) simp
  qed
qed

lemma nth_upd: "j < length xs \<Longrightarrow> xs[w := x] ! j = (if w = j then x else xs ! j)"
  by simp

lemma cache_touch_length [simp]: "length (cache_touch wr w row) = length row"
  by (simp add: cache_touch_def)

lemma cache_touch_tag_valid:
  "j < length row \<Longrightarrow>
     cl_tag (cache_touch wr w row ! j) = cl_tag (row ! j) \<and>
     cl_valid (cache_touch wr w row ! j) = cl_valid (row ! j)"
  by (auto simp: cache_touch_def nth_upd)

lemma row_tags_unique_touch: "row_tags_unique (cache_touch wr w row) = row_tags_unique row"
  by (simp add: row_tags_unique_def cache_touch_tag_valid)

lemma row_tags_unique_invalidate:
  assumes "row_tags_unique row"
  shows "row_tags_unique (row[w := (row ! w)\<lparr>cl_valid := False\<rparr>])"
proof -
  let ?r = "row[w := (row ! w)\<lparr>cl_valid := False\<rparr>]"
  have "\<forall>j<length row. cl_tag (?r ! j) = cl_tag (row ! j) \<and> (cl_valid (?r ! j) \<longrightarrow> cl_valid (row ! j))"
    by (auto simp: nth_upd)
  with assms show ?thesis
    unfolding row_tags_unique_def by (metis length_list_update)
qed

lemma row_tags_unique_load:
  assumes "row_tags_unique row" "first_index (\<lambda>l. cl_valid l \<and> cl_tag l = tg) row = None"
  shows "row_tags_unique (row[w := (row ! w)\<lparr>cl_tag := tg, cl_valid := True, cl_dirty := False\<rparr>])"
proof -
  from assms(2) have "\<forall>j<length row. cl_valid (row ! j) \<longrightarrow> cl_tag (row ! j) \<noteq> tg"
    by (auto simp: first_index_None)
  with assms(1) show ?thesis
    unfolding row_tags_unique_def
    by (auto simp: nth_upd split: if_splits)
qed

lemma tags_unique_update:
  "tags_unique c \<Longrightarrow> row_tags_unique r \<Longrightarrow> c_data c' = (c_data c)[i := r] \<Longrightarrow> tags_unique c'"
  by (auto simp: tags_unique_def dest!: set_update_subset_insert [THEN subsetD])

lemma tags_unique_access:
  assumes "tags_unique c" "cache_access wr c addr = Ok u c'"
  shows "tags_unique c'"
proof -
  from cache_access_Ok [OF assms(2)] obtain tg idx ba i w where
    pi: "py_index (length (c_data c)) idx = Some i" and
    d: "first_index (\<lambda>l. cl_valid l \<and> cl_tag l = tg) (c_data c ! i) = Some w
                \<and> c_data c' = (c_data c)[i := cache_touch wr w (c_data c ! i)]
              \<or> first_index (\<lambda>l. cl_valid l \<and> cl_tag l = tg) (c_data c ! i) = None
                \<and> c_data c' = (c_data c)[i := cache_touch wr w ((c_data c ! i)
                     [w := (c_data c ! i ! w)\<lparr>cl_tag := tg, cl_valid := True, cl_dirty := False\<rparr>])]"
    by blast
  from py_index_Some [OF pi] have "i < length (c_data c)" by simp
  with assms(1) have ru: "row_tags_unique (c_data c ! i)"
    by (simp add: tags_unique_def)
  from d show ?thesis
  proof
    assume "first_index (\<lambda>l. cl_valid l \<and> cl_tag l = tg) (c_data c ! i) = Some w
                \<and> c_data c' = (c_data c)[i := cache_touch wr w (c_data c ! i)]"
    with ru assms(1) show ?thesis
      using tags_unique_update [of c "cache_touch wr w (c_data c ! i)" c' i]
      by (simp add: row_tags_unique_touch)
  next
    assume a: "first_index (\<lambda>l. cl_valid l \<and> cl_tag l = tg) (c_data c ! i) = None
                \<and> c_data c' = (c_data c)[i := cache_touch wr w ((c_data c ! i)
                     [w := (c_data c ! i ! w)\<lparr>cl_tag := tg, cl_valid := True, cl_dirty := False\<rparr>])]"
    from row_tags_unique_load [OF ru, of tg w] a have
      r: "row_tags_unique (cache_touch wr w ((c_data c ! i)
            [w := (c_data c ! i ! w)\<lparr>cl_tag := tg, cl_valid := True, cl_dirty := False\<rparr>]))"
      by (simp add: row_tags_unique_touch)
    from tags_unique_update [OF assms(1) r] a show ?thesis by blast
  qed
qed

lemma tags_unique_swap_out:
  assumes "tags_unique c" "cache_swap_out c idx w = Ok u c'"
  shows "tags_unique c'"
proof -
  from cache_swap_out_Ok [OF assms(2)] have
    il: "nat idx < length (c_data c)" and
    d: "c_data c' = (c_data c)[nat idx := (c_data c ! nat idx)
                          [w := (c_data c ! nat idx ! w)\<lparr>cl_valid := False\<rparr>]]"
    by auto
  from il assms(1) have "row_tags_unique (c_data c ! nat idx)"
    by (simp add: tags_unique_def)
  from row_tags_unique_invalidate [OF this] assms(1) d show ?thesis
    using tags_unique_update by blast
qed

lemma cache_invalidate_loop_Cons_Ok:
  assumes "cache_invalidate_loop c (a # addrs) = Ok u c'"
  obtains
    (skip) tg idx ba i where
      "cache_get_addr_info c a = Inr (tg, idx, ba)"
      "py_index (length (c_data c)) idx = Some i"
      "next_way (\<lambda>l. cl_valid l \<and> cl_tag l = tg) (c_data c ! i)
         [0..<nat (c_associativity c)] = Inr None"
      "cache_invalidate_loop c addrs = Ok u c'"
  | (evict) tg idx ba i w c1 where
      "cache_get_addr_info c a = Inr (tg, idx, ba)"
      "py_index (length (c_data c)) idx = Some i"
      "next_way (\<lambda>l. cl_valid l \<and> cl_tag l = tg) (c_data c ! i)
         [0..<nat (c_associativity c)] = Inr (Some w)"
      "cache_swap_out c idx w = Ok () c1"
      "cache_invalidate_loop c1 addrs = Ok u c'"
  using assms by (auto split: sum.splits option.splits res.splits)

lemma tags_unique_invalidate_loop:
  "tags_unique c \<Longrightarrow> cache_invalidate_loop c addrs = Ok u c' \<Longrightarrow> tags_unique c'"
proof (induction addrs arbitrary: c)
  case Nil
  then show ?case by simp
next
  case (Cons a addrs)
  from Cons.prems(2) show ?case
  proof (cases rule: cache_invalidate_loop_Cons_Ok)
    case (skip tg idx ba i)
    with Cons.IH [OF Cons.prems(1)] show ?thesis by blast
  next
    case (evict tg idx ba i w c1)
    from tags_unique_swap_out [OF Cons.prems(1) evict(4)] evict(5) show ?thesis
      by (rule Cons.IH)
  qed
qed

lemma tags_unique_init: "cache_init pm sz assoc = Inr c \<Longrightarrow> tags_unique c"
  by (auto simp: cache_init_def tags_unique_def row_tags_unique_def split: if_splits)

lemma tags_unique_data: "c_data c' = c_data c \<Longrightarrow> tags_unique c' = tags_unique c"
  by (simp add: tags_unique_def)

lemma cache_swap_out_Raise:
  "cache_swap_out c idx w = Raise e c' \<Longrightarrow> c_data c' = c_data c"
  by (auto simp: cache_swap_out_def Let_def split: if_splits res.splits sum.splits)

lemma tags_unique_swap_in_Raise:
  assumes tu: "tags_unique c" and r: "cache_swap_in c tg idx = Raise e c'"
  shows "tags_unique c'"
proof (cases "tg \<ge> 0 \<and> c_size c \<noteq> 0
      \<and> tg < - ((- pm_size (c_physical c)) div c_size c)
      \<and> (idx \<ge> 0 \<and> idx < int (length (c_data c)))")
  case False
  with r have "c' = c"
    by (auto simp: cache_swap_in_def split: if_splits)
  with tu show ?thesis by simp
next
  case pre: True
  define row where "row = c_data c ! nat idx"
  define ways where "ways = [0..<nat (c_associativity c)]"
  define c1 where "c1 = c\<lparr>c_printer := c_printer c @ [CacheSetFull]\<rparr>"
  have tu1: "tags_unique c1"
    using tu by (simp add: tags_unique_def c1_def)
  show ?thesis
  proof (cases "next_way (\<lambda>l. \<not> cl_valid l) row ways")
    case (Inl a)
    with r [unfolded cache_swap_in_def Let_def] pre have "c' = c"
      by (simp add: row_def ways_def)
    with tu show ?thesis by simp
  next
    case (Inr free)
    define chosen where "chosen =
      (case free of
         Some w \<Rightarrow> Ok w c
       | None \<Rightarrow>
           (case max_way row ways of
              Inl e \<Rightarrow> Raise e c1
            | Inr w \<Rightarrow>
                (case cache_swap_out c1 idx w of
                   Raise e c2 \<Rightarrow> Raise e c2
                 | Ok u c2 \<Rightarrow> Ok w c2)))"
    have ch: "tags_unique (res_state chosen)"
    proof (cases free)
      case (Some w)
      with tu show ?thesis by (simp add: chosen_def)
    next
      case None
      show ?thesis
      proof (cases "max_way row ways")
        case (Inl a)
        with None tu1 show ?thesis by (simp add: chosen_def)
      next
        case mw: (Inr w)
        show ?thesis
        proof (cases "cache_swap_out c1 idx w")
          case (Ok u c2)
          from tags_unique_swap_out [OF tu1 Ok] None mw Ok show ?thesis
            by (simp add: chosen_def)
        next
          case (Raise e2 c2)
          from cache_swap_out_Raise [OF Raise] tu1 have "tags_unique c2"
            by (simp add: tags_unique_def)
          with None mw Raise show ?thesis
            by (simp add: chosen_def)
        qed
      qed
    qed
    note r' = r [unfolded cache_swap_in_def Let_def]
    from r' pre Inr [unfolded row_def ways_def] have r2:
      "(case chosen of
          Raise e c2 \<Rightarrow> Raise e c2
        | Ok w c2 \<Rightarrow>
            (case cache_get_addr c2 tg idx 0 of
               Inl e \<Rightarrow> Raise e c2
             | Inr a \<Rightarrow>
                 (case physical_read (c_physical c2) a of
                    Raise e p \<Rightarrow> Raise e (c2\<lparr>c_physical := p\<rparr>)
                  | Ok u p \<Rightarrow>
                      Ok w (c2\<lparr>c_physical := p,
                            c_printer := c_printer c2 @ [CacheBlockLoaded],
                            c_data := (c_data c2)
                              [nat idx := (c_data c2 ! nat idx)[w := (c_data c2 ! nat idx ! w)
                                 \<lparr>cl_tag := tg, cl_valid := True, cl_dirty := False\<rparr>]]\<rparr>))))
        = Raise e c'"
      unfolding chosen_def c1_def row_def ways_def by simp
    show ?thesis
    proof (cases chosen)
      case (Raise e2 c2)
      with r2 ch show ?thesis by simp
    next
      case (Ok w c2)
      with ch have t2: "tags_unique c2" by simp
      from r2 Ok have "c_data c' = c_data c2"
        by (auto split: sum.splits res.splits)
      with t2 show ?thesis by (simp add: tags_unique_def)
    qed
  qed
qed

lemma tags_unique_access_Raise:
  assumes tu: "tags_unique c" and r: "cache_access wr c addr = Raise e c'"
  shows "tags_unique c'"
proof -
  have tm: "tags_unique (c\<lparr>c_printer := c_printer c @ [CacheMiss]\<rparr>)"
    using tu by (simp add: tags_unique_def)
  from r have "c' = c
      \<or> (\<exists>tg idx. cache_swap_in (c\<lparr>c_printer := c_printer c @ [CacheMiss]\<rparr>) tg idx
            = Raise e c')"
    by (auto simp: cache_access_def split: if_splits sum.splits option.splits res.splits)
  then show ?thesis
    using tu tags_unique_swap_in_Raise [OF tm] by blast
qed

lemma cache_invalidate_loop_Cons_Raise:
  assumes "cache_invalidate_loop c (a # addrs) = Raise e c'"
  obtains
    (here) "c' = c"
  | (later) "cache_invalidate_loop c addrs = Raise e c'"
  | (out) idx w where "cache_swap_out c idx w = Raise e c'"
  | (evict) idx w c1 where
      "cache_swap_out c idx w = Ok () c1" "cache_invalidate_loop c1 addrs = Raise e c'"
  using assms by (auto split: sum.splits option.splits res.splits)

lemma tags_unique_invalidate_loop_Raise:
  "tags_unique c \<Longrightarrow> cache_invalidate_loop c addrs = Raise e c' \<Longrightarrow> tags_unique c'"
proof (induction addrs arbitrary: c)
  case Nil
  then show ?case by simp
next
  case (Cons a addrs)
  from Cons.prems(2) show ?case
  proof (cases rule: cache_invalidate_loop_Cons_Raise)
    case here
    with Cons.prems(1) show ?thesis by simp
  next
    case later
    with Cons.IH [OF Cons.prems(1)] show ?thesis .
  next
    case (out idx w)
    from cache_swap_out_Raise [OF out] Cons.prems(1) show ?thesis
      by (simp add: tags_unique_def)
  next
    case (evict idx w c1)
    from tags_unique_swap_out [OF Cons.prems(1) evict(1)] evict(2) show ?thesis
      by (rule Cons.IH)
  qed
qed

text \<open>
  C8. In every state of a cache (after the constructor and after every \<^verbatim>\<open>read\<close>,
  \<^verbatim>\<open>write\<close> and \<^verbatim>\<open>invalidate\<close>, whether it returned or raised), no two valid
  lines of one set have the same tag.
\<close>

theorem cache_tags_unique:
  "cache_reachable c \<Longrightarrow> tags_unique c"
proof (induction rule: cache_reachable.induct)
  case (cr_init pm sz assoc c)
  then show ?case by (rule tags_unique_init)
next
  case (cr_read c addr c')
  then show ?case by (auto simp: cache_read_def intro: tags_unique_access)
next
  case (cr_write c addr c')
  then show ?case by (auto simp: cache_write_def intro: tags_unique_access)
next
  case (cr_invalidate c begin_addr end_addr c')
  then show ?case
    by (auto simp: cache_invalidate_def split: if_splits intro: tags_unique_invalidate_loop)
next
  case (cr_read_raise c addr e c')
  then show ?case by (auto simp: cache_read_def intro: tags_unique_access_Raise)
next
  case (cr_write_raise c addr e c')
  then show ?case by (auto simp: cache_write_def intro: tags_unique_access_Raise)
next
  case (cr_invalidate_raise c begin_addr end_addr e c')
  then show ?case
    by (auto simp: cache_invalidate_def split: if_splits
        intro: tags_unique_invalidate_loop_Raise)
qed

theorem cache_tags_unique_witness:
  "cache_reachable demo_full_cache
   \<and> tags_unique demo_full_cache
   \<and> length (c_data demo_full_cache ! 0) = 2
   \<and> cl_valid (c_data demo_full_cache ! 0 ! 0) \<and> cl_tag (c_data demo_full_cache ! 0 ! 0) = 0
   \<and> cl_valid (c_data demo_full_cache ! 0 ! 1) \<and> cl_tag (c_data demo_full_cache ! 0 ! 1) = 1
   \<and> cache_reachable (res_state (cache_read demo_full_cache 16))
   \<and> \<not> is_ok (cache_read demo_full_cache 16)
   \<and> tags_unique (res_state (cache_read demo_full_cache 16))"
proof -
  have i: "cache_init (demo_physical 32) 8 2 = Inr demo_assoc_cache"
    by code_simp
  have w: "cache_write demo_assoc_cache 0 = Ok () (res_state (cache_write demo_assoc_cache 0))"
    by code_simp
  have r: "cache_read (res_state (cache_write demo_assoc_cache 0)) 4 = Ok () demo_full_cache"
    by code_simp
  have reach: "cache_reachable demo_full_cache"
    by (rule cr_read [OF cr_write [OF cr_init [OF i] w] r])
  have x: "cache_read demo_full_cache 16
             = Raise AssertionError (res_state (cache_read demo_full_cache 16))"
    by code_simp
  have reach2: "cache_reachable (res_state (cache_read demo_full_cache 16))"
    by (rule cr_read_raise [OF reach x])
  have n: "\<not> is_ok (cache_read demo_full_cache 16)"
    by code_simp
  have l: "length (c_data demo_full_cache ! 0) = 2
     \<and> cl_valid (c_data demo_full_cache ! 0 ! 0) \<and> cl_tag (c_data demo_full_cache ! 0 ! 0) = 0
     \<and> cl_valid (c_data demo_full_cache ! 0 ! 1) \<and> cl_tag (c_data demo_full_cache ! 0 ! 1) = 1"
    by code_simp
  from cache_tags_unique [OF reach] cache_tags_unique [OF reach2] reach reach2 n l
  show ?thesis by simp
qed

subsection \<open>The LRU timers of the cache\<close>

lemma cache_touch_nth:
  "j < length row \<Longrightarrow>
     cache_touch wr w row ! j =
       (if j = w then (if wr then (row ! w)\<lparr>cl_dirty := True, cl_timer := 1\<rparr>
                       else (row ! w)\<lparr>cl_timer := 1\<rparr>)
        else (row ! j)\<lparr>cl_timer := cl_timer (row ! j) + 1\<rparr>)"
  by (auto simp: cache_touch_def nth_upd)

text \<open>
  C3 (amended). After a \<^verbatim>\<open>read\<close> or \<^verbatim>\<open>write\<close> of the cache that returns, the
  accessed line (the hit line, or the line just swapped in) is valid with the address's
  tag and its timer is 1: it is set to 0 and then aged with its set. Every other line of
  the set, valid or not, is the line it was with its timer one higher, and the other sets
  are unchanged.
\<close>

theorem cache_access_timers:
  assumes "cache_read c addr = Ok u c' \<or> cache_write c addr = Ok u c'"
  shows "\<exists>tg idx ba i w.
           cache_get_addr_info c addr = Inr (tg, idx, ba)
           \<and> py_index (length (c_data c)) idx = Some i
           \<and> length (c_data c') = length (c_data c)
           \<and> length (c_data c' ! i) = length (c_data c ! i)
           \<and> w < length (c_data c ! i)
           \<and> cl_valid (c_data c' ! i ! w) \<and> cl_tag (c_data c' ! i ! w) = tg
           \<and> cl_timer (c_data c' ! i ! w) = 1
           \<and> (\<forall>w'<length (c_data c ! i). w' \<noteq> w \<longrightarrow>
                 c_data c' ! i ! w' =
                   (c_data c ! i ! w')\<lparr>cl_timer := cl_timer (c_data c ! i ! w') + 1\<rparr>)
           \<and> (\<forall>j<length (c_data c). j \<noteq> i \<longrightarrow> c_data c' ! j = c_data c ! j)"
proof -
  from assms obtain wr where a: "cache_access wr c addr = Ok u c'"
    by (auto simp: cache_read_def cache_write_def)
  from cache_access_Ok [OF a] obtain tg idx ba i w where
    ai: "cache_get_addr_info c addr = Inr (tg, idx, ba)" and
    pi: "py_index (length (c_data c)) idx = Some i" and
    w: "w < length (c_data c ! i)" and
    d: "first_index (\<lambda>l. cl_valid l \<and> cl_tag l = tg) (c_data c ! i) = Some w
                \<and> c_data c' = (c_data c)[i := cache_touch wr w (c_data c ! i)]
              \<or> first_index (\<lambda>l. cl_valid l \<and> cl_tag l = tg) (c_data c ! i) = None
                \<and> c_data c' = (c_data c)[i := cache_touch wr w ((c_data c ! i)
                     [w := (c_data c ! i ! w)\<lparr>cl_tag := tg, cl_valid := True, cl_dirty := False\<rparr>])]"
    by blast
  from py_index_Some [OF pi] have il: "i < length (c_data c)" by simp
  from d have
    "length (c_data c') = length (c_data c)
     \<and> length (c_data c' ! i) = length (c_data c ! i)
     \<and> cl_valid (c_data c' ! i ! w) \<and> cl_tag (c_data c' ! i ! w) = tg
     \<and> cl_timer (c_data c' ! i ! w) = 1
     \<and> (\<forall>w'<length (c_data c ! i). w' \<noteq> w \<longrightarrow>
           c_data c' ! i ! w' =
             (c_data c ! i ! w')\<lparr>cl_timer := cl_timer (c_data c ! i ! w') + 1\<rparr>)
     \<and> (\<forall>j<length (c_data c). j \<noteq> i \<longrightarrow> c_data c' ! j = c_data c ! j)"
  proof
    assume h: "first_index (\<lambda>l. cl_valid l \<and> cl_tag l = tg) (c_data c ! i) = Some w
                \<and> c_data c' = (c_data c)[i := cache_touch wr w (c_data c ! i)]"
    with first_index_Some [of _ "c_data c ! i" w] have "cl_valid (c_data c ! i ! w)" "cl_tag (c_data c ! i ! w) = tg"
      by auto
    with h il w show ?thesis
      by (simp add: cache_touch_nth)
  next
    assume h: "first_index (\<lambda>l. cl_valid l \<and> cl_tag l = tg) (c_data c ! i) = None
                \<and> c_data c' = (c_data c)[i := cache_touch wr w ((c_data c ! i)
                     [w := (c_data c ! i ! w)\<lparr>cl_tag := tg, cl_valid := True, cl_dirty := False\<rparr>])]"
    with il w show ?thesis
      by (simp add: cache_touch_nth)
  qed
  with ai pi w show ?thesis by blast
qed

text \<open>
  C3 as claimed fails: after the first read of address 0 the accessed line's timer is 1,
  not 0.
\<close>

theorem cache_timer_counterexample:
  "is_ok (cache_read (demo_cache 16) 0)
   \<and> cache_get_addr_info (demo_cache 16) 0 = Inr (0, 0, 0)
   \<and> cl_valid (c_data (res_state (cache_read (demo_cache 16) 0)) ! 0 ! 0)
   \<and> cl_tag (c_data (res_state (cache_read (demo_cache 16) 0)) ! 0 ! 0) = 0
   \<and> cl_timer (c_data (res_state (cache_read (demo_cache 16) 0)) ! 0 ! 0) = 1
   \<and> cl_timer (c_data (res_state (cache_read (demo_cache 16) 0)) ! 0 ! 0) \<noteq> 0"
  by code_simp

theorem cache_access_timers_witness:
  "(cache_read demo_assoc_cache 0 = Ok () (res_state (cache_read demo_assoc_cache 0))
      \<or> cache_write demo_assoc_cache 0 = Ok () (res_state (cache_read demo_assoc_cache 0)))
   \<and> (\<exists>tg idx ba i w.
           cache_get_addr_info demo_assoc_cache 0 = Inr (tg, idx, ba)
           \<and> py_index (length (c_data demo_assoc_cache)) idx = Some i
           \<and> length (c_data (res_state (cache_read demo_assoc_cache 0)))
               = length (c_data demo_assoc_cache)
           \<and> length (c_data (res_state (cache_read demo_assoc_cache 0)) ! i)
               = length (c_data demo_assoc_cache ! i)
           \<and> w < length (c_data demo_assoc_cache ! i)
           \<and> cl_valid (c_data (res_state (cache_read demo_assoc_cache 0)) ! i ! w)
           \<and> cl_tag (c_data (res_state (cache_read demo_assoc_cache 0)) ! i ! w) = tg
           \<and> cl_timer (c_data (res_state (cache_read demo_assoc_cache 0)) ! i ! w) = 1
           \<and> (\<forall>w'<length (c_data demo_assoc_cache ! i). w' \<noteq> w \<longrightarrow>
                 c_data (res_state (cache_read demo_assoc_cache 0)) ! i ! w' =
                   (c_data demo_assoc_cache ! i ! w')
                     \<lparr>cl_timer := cl_timer (c_data demo_assoc_cache ! i ! w') + 1\<rparr>)
           \<and> (\<forall>j<length (c_data demo_assoc_cache). j \<noteq> i \<longrightarrow>
                 c_data (res_state (cache_read demo_assoc_cache 0)) ! j
                   = c_data demo_assoc_cache ! j))"
proof -
  have h: "cache_read demo_assoc_cache 0 = Ok () (res_state (cache_read demo_assoc_cache 0))
      \<or> cache_write demo_assoc_cache 0 = Ok () (res_state (cache_read demo_assoc_cache 0))"
    by code_simp
  from cache_access_timers [OF h] h show ?thesis by blast
qed

subsection \<open>Eviction from a full set\<close>

lemma max_way_from_upt:
  assumes "n \<le> length row" "best < k" "k \<le> n"
    "\<forall>j<k. cl_timer (row ! j) \<le> cl_timer (row ! best)"
    "\<forall>j<best. cl_timer (row ! j) < cl_timer (row ! best)"
  shows "\<exists>w<n. max_way_from row best [k..<n] = Inr w
           \<and> (\<forall>j<n. cl_timer (row ! j) \<le> cl_timer (row ! w))
           \<and> (\<forall>j<w. cl_timer (row ! j) < cl_timer (row ! w))"
  using assms
proof (induction "n - k" arbitrary: best k)
  case 0
  then have "k = n" by simp
  with 0 show ?case by auto
next
  case (Suc d)
  then have kn: "k < n" by simp
  then have upt: "[k..<n] = k # [Suc k..<n]" by (simp add: upt_conv_Cons)
  have kl: "k < length row" using kn Suc.prems(1) by simp
  show ?case
  proof (cases "cl_timer (row ! k) > cl_timer (row ! best)")
    case True
    have a: "\<forall>j<Suc k. cl_timer (row ! j) \<le> cl_timer (row ! k)"
      using True Suc.prems(4) by (auto simp: less_Suc_eq)
    have b: "\<forall>j<k. cl_timer (row ! j) < cl_timer (row ! k)"
      using True Suc.prems(4) by (meson le_less_trans)
    from Suc.hyps(1) [of "Suc k" k] Suc.hyps(2) Suc.prems(1) kn a b
    have "\<exists>w<n. max_way_from row k [Suc k..<n] = Inr w
           \<and> (\<forall>j<n. cl_timer (row ! j) \<le> cl_timer (row ! w))
           \<and> (\<forall>j<w. cl_timer (row ! j) < cl_timer (row ! w))"
      by simp
    with True kl upt show ?thesis by simp
  next
    case False
    have a: "\<forall>j<Suc k. cl_timer (row ! j) \<le> cl_timer (row ! best)"
      using False Suc.prems(4) by (auto simp: less_Suc_eq)
    from Suc.hyps(1) [of "Suc k" best] Suc.hyps(2) Suc.prems(1,2,5) kn a
    have "\<exists>w<n. max_way_from row best [Suc k..<n] = Inr w
           \<and> (\<forall>j<n. cl_timer (row ! j) \<le> cl_timer (row ! w))
           \<and> (\<forall>j<w. cl_timer (row ! j) < cl_timer (row ! w))"
      by simp
    with False kl upt show ?thesis by simp
  qed
qed

lemma max_way_first_argmax:
  assumes "0 < n" "n \<le> length row"
  shows "\<exists>w<n. max_way row [0..<n] = Inr w
           \<and> (\<forall>j<n. cl_timer (row ! j) \<le> cl_timer (row ! w))
           \<and> (\<forall>j<w. cl_timer (row ! j) < cl_timer (row ! w))"
proof -
  from assms have upt: "[0..<n] = 0 # [Suc 0..<n]" by (simp add: upt_conv_Cons)
  from max_way_from_upt [of n row 0 "Suc 0"] assms
  have "\<exists>w<n. max_way_from row 0 [Suc 0..<n] = Inr w
           \<and> (\<forall>j<n. cl_timer (row ! j) \<le> cl_timer (row ! w))
           \<and> (\<forall>j<w. cl_timer (row ! j) < cl_timer (row ! w))"
    by simp
  moreover from assms have "row \<noteq> []" by auto
  ultimately show ?thesis using upt by (simp add: max_way_def)
qed

lemma next_way_total:
  assumes "\<forall>w \<in> set ws. w < length row"
  shows "next_way P row ws = Inr None \<and> (\<forall>w \<in> set ws. \<not> P (row ! w))
       \<or> (\<exists>w. next_way P row ws = Inr (Some w) \<and> w \<in> set ws \<and> P (row ! w))"
  using assms by (induction ws) auto

lemma cache_wf_row:
  "cache_wf c \<Longrightarrow> i < length (c_data c) \<Longrightarrow> length (c_data c ! i) = nat (c_associativity c)"
  by (auto simp: cache_wf_def dest!: nth_mem)

text \<open>
  When the tag passes the assertion of \<^verbatim>\<open>_swap_in\<close>: a swap-in into a set whose lines
  are all valid (in a cache of the constructor's shape whose valid lines lie inside the
  physical memory, for a tag and set that name a block of the physical memory) returns
  the first way among those with the greatest timer. That way is swapped out first: the
  physical memory gets a write of the evicted block exactly when the evicted line is
  dirty, and the line is invalid in the state \<open>c1\<close> between the eviction and the load.
  Then the new block is read from the physical memory and the line ends valid, with the
  new tag and not dirty.
\<close>

lemma cache_swap_in_evicts_oldest:
  assumes wf: "cache_wf c" and lim: "lines_in_memory c"
    and idx: "0 \<le> idx" "idx < int (length (c_data c))"
    and full: "\<forall>l \<in> set (c_data c ! nat idx). cl_valid l"
    and tg: "0 \<le> tg" "tg < - ((- pm_size (c_physical c)) div c_size c)"
    and blk: "0 \<le> tg * (c_size c div c_associativity c) + idx * c_block_size c"
             "tg * (c_size c div c_associativity c) + idx * c_block_size c < pm_size (c_physical c)"
  shows "\<exists>w c1 c'.
      w < length (c_data c ! nat idx)
      \<and> (\<forall>j<length (c_data c ! nat idx).
            cl_timer (c_data c ! nat idx ! j) \<le> cl_timer (c_data c ! nat idx ! w))
      \<and> (\<forall>j<w. cl_timer (c_data c ! nat idx ! j) < cl_timer (c_data c ! nat idx ! w))
      \<and> cache_swap_out (c\<lparr>c_printer := c_printer c @ [CacheSetFull]\<rparr>) idx w = Ok () c1
      \<and> \<not> cl_valid (c_data c1 ! nat idx ! w)
      \<and> pm_printer (c_physical c1) = pm_printer (c_physical c) @
           (if cl_dirty (c_data c ! nat idx ! w)
            then [PhysWrite ((cl_tag (c_data c ! nat idx ! w) * (c_size c div c_associativity c)
                               + idx * c_block_size c) div c_block_size c)]
            else [])
      \<and> cache_swap_in c tg idx = Ok w c'
      \<and> pm_printer (c_physical c') = pm_printer (c_physical c1) @
           [PhysRead ((tg * (c_size c div c_associativity c) + idx * c_block_size c)
                        div c_block_size c)]
      \<and> c_data c' = (c_data c)[nat idx := (c_data c ! nat idx)
           [w := (c_data c ! nat idx ! w)\<lparr>cl_tag := tg, cl_valid := True, cl_dirty := False\<rparr>]]"
proof -
  define row where "row = c_data c ! nat idx"
  define n where "n = nat (c_associativity c)"
  from idx have il: "nat idx < length (c_data c)" by simp
  from cache_wf_row [OF wf il] have len: "length row = n" by (simp add: row_def n_def)
  from wf have npos: "0 < n" and cfg: "c_associativity c \<noteq> 0" "c_size c \<noteq> 0"
    "pm_block_size (c_physical c) = c_block_size c" "c_block_size c \<noteq> 0"
    by (auto simp: cache_wf_def n_def)
  from full have allv: "\<forall>w \<in> set [0..<n]. \<not> \<not> cl_valid (row ! w)"
    by (simp add: row_def [symmetric] len)
  from next_way_total [of "[0..<n]" row "\<lambda>l. \<not> cl_valid l"] allv len
  have nw: "next_way (\<lambda>l. \<not> cl_valid l) row [0..<n] = Inr None"
    by auto
  from max_way_first_argmax [of n row] npos len obtain w where
    w: "w < n" and mw: "max_way row [0..<n] = Inr w"
    and mx: "\<forall>j<n. cl_timer (row ! j) \<le> cl_timer (row ! w)"
    and fst: "\<forall>j<w. cl_timer (row ! j) < cl_timer (row ! w)"
    by auto
  from w len full have vw: "cl_valid (row ! w)" by (simp add: row_def)
  from w have wa: "int w < c_associativity c" by (simp add: n_def)
  from lim il w len vw idx have vmem:
    "0 \<le> cl_tag (row ! w) * (c_size c div c_associativity c) + idx * c_block_size c"
    "cl_tag (row ! w) * (c_size c div c_associativity c) + idx * c_block_size c
       < pm_size (c_physical c)"
    unfolding lines_in_memory_def row_def by (metis int_nat_eq)+
  define c1 where "c1 =
    (if cl_dirty (row ! w)
     then c\<lparr>c_printer := c_printer c @ [CacheSetFull,
              CacheDirtyWriteBack (idx * c_associativity c + int w)],
            c_physical := (c_physical c)\<lparr>pm_printer := pm_printer (c_physical c) @
              [PhysWrite ((cl_tag (row ! w) * (c_size c div c_associativity c)
                             + idx * c_block_size c) div c_block_size c)]\<rparr>,
            c_data := (c_data c)[nat idx := row[w := (row ! w)\<lparr>cl_valid := False\<rparr>]]\<rparr>
     else c\<lparr>c_printer := c_printer c @ [CacheSetFull,
              CacheCleanNoWriteBack (idx * c_associativity c + int w)],
            c_data := (c_data c)[nat idx := row[w := (row ! w)\<lparr>cl_valid := False\<rparr>]]\<rparr>)"
  have so: "cache_swap_out (c\<lparr>c_printer := c_printer c @ [CacheSetFull]\<rparr>) idx w = Ok () c1"
    using idx wa w len vw vmem cfg
    by (simp add: cache_swap_out_def Let_def row_def [symmetric] cache_get_addr_def
        physical_write_def c1_def)
  have c1d: "c_data c1 = (c_data c)[nat idx := row[w := (row ! w)\<lparr>cl_valid := False\<rparr>]]"
    and c1p: "pm_printer (c_physical c1) = pm_printer (c_physical c) @
           (if cl_dirty (row ! w)
            then [PhysWrite ((cl_tag (row ! w) * (c_size c div c_associativity c)
                               + idx * c_block_size c) div c_block_size c)]
            else [])"
    and c1c: "c_associativity c1 = c_associativity c" "c_size c1 = c_size c"
      "c_block_size c1 = c_block_size c" "pm_size (c_physical c1) = pm_size (c_physical c)"
      "pm_block_size (c_physical c1) = pm_block_size (c_physical c)"
    by (simp_all add: c1_def)
  define c' where "c' = c1\<lparr>c_physical := (c_physical c1)\<lparr>pm_printer := pm_printer (c_physical c1) @
              [PhysRead ((tg * (c_size c div c_associativity c) + idx * c_block_size c)
                           div c_block_size c)]\<rparr>,
         c_printer := c_printer c1 @ [CacheBlockLoaded],
         c_data := (c_data c)[nat idx := row
           [w := (row ! w)\<lparr>cl_tag := tg, cl_valid := True, cl_dirty := False\<rparr>]]\<rparr>"
  have si: "cache_swap_in c tg idx = Ok w c'"
    using idx tg cfg nw mw so blk il w len c1d c1c
    by (simp add: cache_swap_in_def Let_def row_def [symmetric] n_def [symmetric]
        cache_get_addr_def physical_read_def c'_def)
  have inval: "\<not> cl_valid (c_data c1 ! nat idx ! w)"
    using il w len by (simp add: c1d)
  from w len mx fst so inval c1p si show ?thesis
    unfolding row_def [symmetric]
    by (intro exI [of _ w] exI [of _ c1] exI [of _ c']) (simp add: c'_def)
qed

lemma cache_swap_in_evicts_oldest_example:
  "cache_wf demo_full_cache \<and> lines_in_memory demo_full_cache
   \<and> (0::int) \<le> 0 \<and> 0 < int (length (c_data demo_full_cache))
   \<and> list_all cl_valid (c_data demo_full_cache ! nat 0)
   \<and> (0::int) \<le> 2 \<and> 2 < - ((- pm_size (c_physical demo_full_cache)) div c_size demo_full_cache)
   \<and> cache_swap_in demo_full_cache 2 0 = Ok 0 (res_state (cache_swap_in demo_full_cache 2 0))
   \<and> pm_printer (c_physical (res_state (cache_swap_in demo_full_cache 2 0)))
        = [PhysRead 0, PhysRead 1, PhysWrite 0, PhysRead 2]
   \<and> (\<exists>w c1 c'.
      w < length (c_data demo_full_cache ! nat 0)
      \<and> (\<forall>j<length (c_data demo_full_cache ! nat 0).
            cl_timer (c_data demo_full_cache ! nat 0 ! j) \<le> cl_timer (c_data demo_full_cache ! nat 0 ! w))
      \<and> (\<forall>j<w. cl_timer (c_data demo_full_cache ! nat 0 ! j) < cl_timer (c_data demo_full_cache ! nat 0 ! w))
      \<and> cache_swap_out (demo_full_cache\<lparr>c_printer := c_printer demo_full_cache @ [CacheSetFull]\<rparr>) 0 w = Ok () c1
      \<and> \<not> cl_valid (c_data c1 ! nat 0 ! w)
      \<and> pm_printer (c_physical c1) = pm_printer (c_physical demo_full_cache) @
           (if cl_dirty (c_data demo_full_cache ! nat 0 ! w)
            then [PhysWrite ((cl_tag (c_data demo_full_cache ! nat 0 ! w) * (c_size demo_full_cache div c_associativity demo_full_cache)
                               + 0 * c_block_size demo_full_cache) div c_block_size demo_full_cache)]
            else [])
      \<and> cache_swap_in demo_full_cache 2 0 = Ok w c'
      \<and> pm_printer (c_physical c') = pm_printer (c_physical c1) @
           [PhysRead ((2 * (c_size demo_full_cache div c_associativity demo_full_cache) + 0 * c_block_size demo_full_cache)
                        div c_block_size demo_full_cache)]
      \<and> c_data c' = (c_data demo_full_cache)[nat 0 := (c_data demo_full_cache ! nat 0)
           [w := (c_data demo_full_cache ! nat 0 ! w)\<lparr>cl_tag := 2, cl_valid := True, cl_dirty := False\<rparr>]])"
proof -
  have wf: "cache_wf demo_full_cache" by code_simp
  have lim: "lines_in_memory demo_full_cache" by code_simp
  have i1: "(0::int) \<le> 0" by simp
  have i2: "0 < int (length (c_data demo_full_cache))" by code_simp
  have full: "list_all cl_valid (c_data demo_full_cache ! nat 0)" by code_simp
  then have full': "\<forall>l \<in> set (c_data demo_full_cache ! nat 0). cl_valid l"
    by (simp add: list_all_iff)
  have t1: "(0::int) \<le> 2" by simp
  have t2: "2 < - ((- pm_size (c_physical demo_full_cache)) div c_size demo_full_cache)"
    by code_simp
  have b1: "0 \<le> 2 * (c_size demo_full_cache div c_associativity demo_full_cache)
               + 0 * c_block_size demo_full_cache"
    by code_simp
  have b2: "2 * (c_size demo_full_cache div c_associativity demo_full_cache)
               + 0 * c_block_size demo_full_cache < pm_size (c_physical demo_full_cache)"
    by code_simp
  have r: "cache_swap_in demo_full_cache 2 0 = Ok 0 (res_state (cache_swap_in demo_full_cache 2 0))"
    by code_simp
  have p: "pm_printer (c_physical (res_state (cache_swap_in demo_full_cache 2 0)))
        = [PhysRead 0, PhysRead 1, PhysWrite 0, PhysRead 2]"
    by code_simp
  from cache_swap_in_evicts_oldest [OF wf lim i1 i2 full' t1 t2 b1 b2] wf lim i2 full t2 r p
  show ?thesis by simp
qed

text \<open>
  C4 (the code departs from it). The claim: every miss on a set whose lines are all valid
  evicts the first way with the greatest timer, writes it back if it is dirty, and loads
  the new block into it. \<^verbatim>\<open>_get_addr_info\<close> computes the tag as
  \<^verbatim>\<open>addr // (size // associativity)\<close>, and \<^verbatim>\<open>_swap_in\<close> asserts
  \<^verbatim>\<open>tag < ceil(physical.size / size)\<close>: with two ways or more, the addresses of the upper
  part of the physical memory have tags that fail the assertion. In the two-way cache
  with its set full, address 16 is inside the physical memory and misses; \<^verbatim>\<open>read\<close>
  and \<^verbatim>\<open>write\<close> raise AssertionError, having only printed the miss: nothing is
  evicted and nothing is loaded.
\<close>

theorem cache_full_set_miss_raises:
  "(0::int) \<le> 16 \<and> 16 < pm_size (c_physical demo_full_cache)
   \<and> list_all cl_valid (c_data demo_full_cache ! 0)
   \<and> cache_get_addr_info demo_full_cache 16 = Inr (4, 0, 0)
   \<and> first_index (\<lambda>l. cl_valid l \<and> cl_tag l = 4) (c_data demo_full_cache ! 0) = None
   \<and> cache_read demo_full_cache 16 =
        Raise AssertionError (demo_full_cache\<lparr>c_printer := c_printer demo_full_cache @ [CacheMiss]\<rparr>)
   \<and> cache_write demo_full_cache 16 =
        Raise AssertionError (demo_full_cache\<lparr>c_printer := c_printer demo_full_cache @ [CacheMiss]\<rparr>)"
  by code_simp

subsection \<open>The frame pool of VirtualMemory\<close>























end
